theory Spec2Isabelle
  imports Complex_Main "HOL-Library.Multiset"
begin

section \<open>Planar orbit integration wrapper: the data model\<close>

text \<open>
  The development follows \<^verbatim>\<open>integratePlanarOrbit.c\<close>. Conventions of the embedding:
  \<^item> a C \<^verbatim>\<open>double\<close> is a \<^typ>\<open>real\<close>. The force evaluator is given twice. The first
    reading is exact: \<^verbatim>\<open>sqrt\<close> is \<^const>\<open>sqrt\<close>, \<^verbatim>\<open>acos\<close> is \<^const>\<open>arccos\<close>, the
    constant \<^verbatim>\<open>M_PI\<close> is \<^const>\<open>pi\<close> and nothing is rounded; it carries the properties that
    do not depend on rounding. The second reading rounds every operation to the nearest
    double; it carries the properties that do. A division by \<open>R = 0\<close>, which in C yields a
    NaN or an infinity, has no real value and is the outcome \<open>NotANumber\<close>;
  \<^item> a C \<^verbatim>\<open>int\<close> is an \<^typ>\<open>int\<close>; the only integer arithmetic of the file is the
    increment of a loop counter below its bound, which cannot overflow;
  \<^item> a pointer that walks an array (\<^verbatim>\<open>*p++\<close>) is the list of the cells from the pointer
    to the end of the array; reading past the end is the outcome \<open>OutOfBounds\<close>;
  \<^item> memory obtained from \<^verbatim>\<open>malloc\<close> lives in an explicit store; an array cell of
    \<^verbatim>\<open>struct leapFuncArg\<close> that was never assigned is \<open>Garbage\<close>.
\<close>

type_synonym addr = nat

text \<open>The ways in which a run leaves the behaviour defined by C.\<close>

datatype fault =
    OutOfBounds      \<comment> \<open>read, write or pointer step past the end of an array\<close>
  | Indeterminate    \<comment> \<open>use of a struct field that was never assigned\<close>
  | InvalidPointer   \<comment> \<open>dereference or free of an address that is not a live block\<close>
  | NotANumber       \<comment> \<open>division by \<open>R = 0\<close>\<close>

text \<open>
  A force-law provider: the C type \<^verbatim>\<open>double (*)(double R, double phi, int nargs, double *args)\<close>.
  The pointer argument is passed as the contents of the buffer it points to.
\<close>

type_synonym force_fn = "real \<Rightarrow> real \<Rightarrow> int \<Rightarrow> real list \<Rightarrow> real"

text \<open>\<^verbatim>\<open>struct leapFuncArg\<close> (declared in \<^verbatim>\<open>bovy_symplecticode.h\<close>), with the four
  fields the file uses.\<close>

record leapFuncArg =
  planarRforce :: force_fn
  planarphiforce :: force_fn
  nargs :: int
  args :: addr

datatype slot = Garbage | Term leapFuncArg

text \<open>The buffers of doubles that are live, with their contents.\<close>

type_synonym dmem = "addr \<rightharpoonup> real list"

definition M_PI :: real where
  "M_PI = pi"

section \<open>The force evaluator\<close>

text \<open>
  \<^verbatim>\<open>calcPlanarRforce\<close>: the loop \<^verbatim>\<open>for (ii=0; ii < nargs; ii++)\<close> with the running sum
  \<open>Rforce\<close>; \<open>leapFuncArgs\<close> is the array from the current pointer on.
\<close>

function calcPlanarRforce_loop ::
  "int \<Rightarrow> int \<Rightarrow> real \<Rightarrow> real \<Rightarrow> slot list \<Rightarrow> dmem \<Rightarrow> real \<Rightarrow> fault + real" where
  "calcPlanarRforce_loop ii n R phi leapFuncArgs mem Rforce =
     (if ii < n then
        (case leapFuncArgs of
           [] \<Rightarrow> Inl OutOfBounds
         | Garbage # _ \<Rightarrow> Inl Indeterminate
         | Term a # rest \<Rightarrow>
             (case mem (args a) of
                None \<Rightarrow> Inl InvalidPointer
              | Some vs \<Rightarrow>
                  calcPlanarRforce_loop (ii + 1) n R phi rest mem
                    (Rforce + planarRforce a R phi (nargs a) vs)))
      else Inr Rforce)"
  by pat_completeness auto
termination
  by (relation "measure (\<lambda>(ii, n, R, phi, leapFuncArgs, mem, Rforce). nat (n - ii))") auto

declare calcPlanarRforce_loop.simps [simp del]

definition calcPlanarRforce ::
  "real \<Rightarrow> real \<Rightarrow> real \<Rightarrow> int \<Rightarrow> slot list \<Rightarrow> dmem \<Rightarrow> fault + real" where
  "calcPlanarRforce R phi t n leapFuncArgs mem =
     calcPlanarRforce_loop 0 n R phi leapFuncArgs mem 0"

text \<open>\<^verbatim>\<open>calcPlanarphiforce\<close>: the same loop over the angular providers.\<close>

function calcPlanarphiforce_loop ::
  "int \<Rightarrow> int \<Rightarrow> real \<Rightarrow> real \<Rightarrow> slot list \<Rightarrow> dmem \<Rightarrow> real \<Rightarrow> fault + real" where
  "calcPlanarphiforce_loop ii n R phi leapFuncArgs mem phiforce =
     (if ii < n then
        (case leapFuncArgs of
           [] \<Rightarrow> Inl OutOfBounds
         | Garbage # _ \<Rightarrow> Inl Indeterminate
         | Term a # rest \<Rightarrow>
             (case mem (args a) of
                None \<Rightarrow> Inl InvalidPointer
              | Some vs \<Rightarrow>
                  calcPlanarphiforce_loop (ii + 1) n R phi rest mem
                    (phiforce + planarphiforce a R phi (nargs a) vs)))
      else Inr phiforce)"
  by pat_completeness auto
termination
  by (relation "measure (\<lambda>(ii, n, R, phi, leapFuncArgs, mem, phiforce). nat (n - ii))") auto

declare calcPlanarphiforce_loop.simps [simp del]

definition calcPlanarphiforce ::
  "real \<Rightarrow> real \<Rightarrow> real \<Rightarrow> int \<Rightarrow> slot list \<Rightarrow> dmem \<Rightarrow> fault + real" where
  "calcPlanarphiforce R phi t n leapFuncArgs mem =
     calcPlanarphiforce_loop 0 n R phi leapFuncArgs mem 0"

text \<open>
  Lines 75 to 79 of \<^verbatim>\<open>evalPlanarRectForce\<close>: the polar representation
  \<open>(R, phi, sinphi, cosphi)\<close> of the rectangular position \<open>(x, y)\<close>.
\<close>

definition evalPlanarRectForce_polar :: "real \<Rightarrow> real \<Rightarrow> real \<times> real \<times> real \<times> real" where
  "evalPlanarRectForce_polar x y =
     (let R = sqrt (x * x + y * y);
          phi = arccos (x / R);
          sinphi = y / R;
          cosphi = x / R;
          phi = (if y < 0 then phi + 2 * M_PI else phi)
      in (R, phi, sinphi, cosphi))"

text \<open>
  \<^verbatim>\<open>evalPlanarRectForce\<close>. \<open>q\<close> and \<open>a\<close> are the contents of the caller's two buffers;
  the result is the memory the call could reach through its pointer arguments, after the
  call: the buffer \<open>a\<close>, the array \<open>leapFuncArgs\<close> and the parameter buffers. The caller's
  buffers are taken to be disjoint from the parameter buffers.
\<close>

definition evalPlanarRectForce ::
  "real \<Rightarrow> real list \<Rightarrow> real list \<Rightarrow> int \<Rightarrow> slot list \<Rightarrow> dmem
     \<Rightarrow> fault + (real list \<times> slot list \<times> dmem)" where
  "evalPlanarRectForce t q a n leapFuncArgs mem =
     (case q of
        x # y # _ \<Rightarrow>
          (case evalPlanarRectForce_polar x y of
             (R, phi, sinphi, cosphi) \<Rightarrow>
               if R = 0 then Inl NotANumber
               else
                 (case calcPlanarRforce R phi t n leapFuncArgs mem of
                    Inl f \<Rightarrow> Inl f
                  | Inr Rforce \<Rightarrow>
                      (case calcPlanarphiforce R phi t n leapFuncArgs mem of
                         Inl f \<Rightarrow> Inl f
                       | Inr phiforce \<Rightarrow>
                           (case a of
                              _ # _ # a' \<Rightarrow>
                                Inr ((cosphi * Rforce - 1 / R * sinphi * phiforce)
                                     # (sinphi * Rforce + 1 / R * cosphi * phiforce)
                                     # a', leapFuncArgs, mem)
                            | _ \<Rightarrow> Inl OutOfBounds))))
      | _ \<Rightarrow> Inl OutOfBounds)"

section \<open>The force evaluator in double arithmetic\<close>

text \<open>
  The arithmetic of the C type \<^verbatim>\<open>double\<close> (IEEE 754 binary64): a finite double is a real
  of the form \<open>n * 2 powi k\<close> with \<open>\<bar>n\<bar> \<le> 2 ^ 53\<close> and \<open>- 1074 \<le> k\<close>, and every operation
  returns the exact result rounded to the nearest double, ties to the even significand,
  with gradual underflow. \<open>ulp_exp x\<close> is the exponent of the spacing of the doubles around
  \<open>x\<close>. Results beyond the largest double (the infinities) and NaNs are not modelled:
  \<open>round_double\<close> has no upper bound on the exponent.
\<close>

definition rne :: "real \<Rightarrow> int" where
  "rne q =
     (let f = \<lfloor>q\<rfloor>; r = q - of_int f
      in if r < 1 / 2 then f else if 1 / 2 < r then f + 1 else if even f then f else f + 1)"

definition ulp_exp :: "real \<Rightarrow> int" where
  "ulp_exp x = max (\<lfloor>log 2 \<bar>x\<bar>\<rfloor> - 52) (- 1074)"

definition round_double :: "real \<Rightarrow> real" where
  "round_double x =
     (if x = 0 then 0 else of_int (rne (x / 2 powi ulp_exp x)) * 2 powi ulp_exp x)"


text \<open>A real whose rounding does not underflow: zero, or at least the smallest normal
  double in magnitude.\<close>

definition normal_or_zero :: "real \<Rightarrow> bool" where
  "normal_or_zero z = (z = 0 \<or> 2 powi (- 1022) \<le> \<bar>z\<bar>)"

text \<open>
  The operations of the file on doubles. \<^verbatim>\<open>+\<close>, \<^verbatim>\<open>-\<close>, \<^verbatim>\<open>*\<close>, \<^verbatim>\<open>/\<close> and \<^verbatim>\<open>sqrt\<close> are
  correctly rounded in IEEE 754; \<^verbatim>\<open>acos\<close> is taken to be so too (its result only
  becomes the angle that is passed to the providers). \<^verbatim>\<open>M_PI\<close> is the double of the
  literal in line 12. The operations are evaluated one by one in binary64, with no fused
  multiply-add.
\<close>

definition fadd :: "real \<Rightarrow> real \<Rightarrow> real" where
  "fadd a b = round_double (a + b)"

definition fsub :: "real \<Rightarrow> real \<Rightarrow> real" where
  "fsub a b = round_double (a - b)"

definition fmul :: "real \<Rightarrow> real \<Rightarrow> real" where
  "fmul a b = round_double (a * b)"

definition fdiv :: "real \<Rightarrow> real \<Rightarrow> real" where
  "fdiv a b = round_double (a / b)"

definition fsqrt :: "real \<Rightarrow> real" where
  "fsqrt a = round_double (sqrt a)"

definition facos :: "real \<Rightarrow> real" where
  "facos a = round_double (arccos a)"

definition M_PI_fl :: real where
  "M_PI_fl = round_double (314159265358979323846 / 100000000000000000000)"







definition evalPlanarRectForce_polar_fl :: "real \<Rightarrow> real \<Rightarrow> real \<times> real \<times> real \<times> real" where
  "evalPlanarRectForce_polar_fl x y =
     (let R = fsqrt (fadd (fmul x x) (fmul y y));
          phi = facos (fdiv x R);
          sinphi = fdiv y R;
          cosphi = fdiv x R;
          phi = (if y < 0 then fadd phi (fmul 2 M_PI_fl) else phi)
      in (R, phi, sinphi, cosphi))"


section \<open>Sums over a sequence of terms\<close>

text \<open>
  A Force Term Sequence the evaluator can run on: every cell of the array is an assigned
  term whose \<open>args\<close> points to a live buffer.
\<close>

definition callable :: "dmem \<Rightarrow> slot list \<Rightarrow> bool" where
  "callable mem slots =
     list_all (\<lambda>s. case s of Garbage \<Rightarrow> False | Term a \<Rightarrow> mem (args a) \<noteq> None) slots"

text \<open>What one cell contributes to the two sums (nothing when the cell cannot be called).\<close>

definition slot_Rforce :: "real \<Rightarrow> real \<Rightarrow> dmem \<Rightarrow> slot \<Rightarrow> real" where
  "slot_Rforce R phi mem s =
     (case s of
        Garbage \<Rightarrow> 0
      | Term a \<Rightarrow>
          (case mem (args a) of None \<Rightarrow> 0 | Some vs \<Rightarrow> planarRforce a R phi (nargs a) vs))"

definition slot_phiforce :: "real \<Rightarrow> real \<Rightarrow> dmem \<Rightarrow> slot \<Rightarrow> real" where
  "slot_phiforce R phi mem s =
     (case s of
        Garbage \<Rightarrow> 0
      | Term a \<Rightarrow>
          (case mem (args a) of None \<Rightarrow> 0 | Some vs \<Rightarrow> planarphiforce a R phi (nargs a) vs))"

section \<open>The integration driver\<close>

text \<open>
  The state of a run of \<^verbatim>\<open>integratePlanarOrbit\<close>: the blocks that are allocated and not
  yet freed, the contents of the buffers of doubles, the next address \<^verbatim>\<open>malloc\<close> returns,
  the addresses passed to \<^verbatim>\<open>free\<close> so far, and the number of calls of \<^verbatim>\<open>leapfrog\<close>.
  \<^verbatim>\<open>malloc\<close> always succeeds and returns a new block; the source does not test its result.
\<close>

record machine =
  live :: "addr set"
  doubles :: dmem
  brk :: addr
  freed :: "addr list"
  engine_calls :: nat

definition malloc :: "machine \<Rightarrow> addr \<times> machine" where
  "malloc m = (brk m, m\<lparr>live := insert (brk m) (live m), brk := brk m + 1\<rparr>)"

definition free :: "addr \<Rightarrow> machine \<Rightarrow> (fault + unit) \<times> machine" where
  "free p m =
     (if p \<in> live m
      then (Inr (), m\<lparr>live := live m - {p}, doubles := (doubles m)(p := None),
                       freed := freed m @ [p]\<rparr>)
      else (Inl InvalidPointer, m))"

text \<open>
  Modelled from the spec: \<^verbatim>\<open>ZeroPlanarForce\<close> is declared in \<^verbatim>\<open>galpy_potentials.h\<close>, which
  is not part of the sources; the spec calls it the constant-zero provider for potentials
  with no angular component.
\<close>

definition ZeroPlanarForce :: force_fn where
  "ZeroPlanarForce R phi n vs = 0"

text \<open>
  Lines 46 to 49: the loop \<^verbatim>\<open>for (jj=0; jj < leapFuncArgs->nargs; jj++)\<close> that copies
  from \<open>pot_args\<close>. \<open>buf\<close> holds the cells of the new buffer written so far; the result is
  the filled buffer and the advanced \<open>pot_args\<close>.
\<close>

function copy_loop ::
  "int \<Rightarrow> int \<Rightarrow> real list \<Rightarrow> real list \<Rightarrow> fault + (real list \<times> real list)" where
  "copy_loop jj n pot_args buf =
     (if jj < n then
        (case pot_args of
           [] \<Rightarrow> Inl OutOfBounds
         | v # rest \<Rightarrow> copy_loop (jj + 1) n rest (buf @ [v]))
      else Inr (buf, pot_args))"
  by pat_completeness auto
termination
  by (relation "measure (\<lambda>(jj, n, pot_args, buf). nat (n - jj))") auto

declare copy_loop.simps [simp del]

text \<open>
  Lines 39 to 53: the loop over the type codes. The only case of the \<^verbatim>\<open>switch\<close> is \<open>0\<close>;
  there is no \<^verbatim>\<open>default\<close>, so any other code leaves the cell as \<^verbatim>\<open>malloc\<close> returned it
  and reads no parameter. The provider \<^verbatim>\<open>LogarithmicHaloPotentialPlanarRforce\<close> is declared
  in \<^verbatim>\<open>galpy_potentials.h\<close> and is a parameter, \<open>LH\<close>. The result is the array from cell
  \<open>ii\<close> on, and the advanced \<open>pot_type\<close> and \<open>pot_args\<close>.
\<close>

function build_loop ::
  "force_fn \<Rightarrow> int \<Rightarrow> int \<Rightarrow> int list \<Rightarrow> real list \<Rightarrow> machine
     \<Rightarrow> (fault + (slot list \<times> int list \<times> real list)) \<times> machine" where
  "build_loop LH ii npot pot_type pot_args m =
     (if ii < npot then
        (case pot_type of
           [] \<Rightarrow> (Inl OutOfBounds, m)
         | c # pot_type' \<Rightarrow>
             if c = 0 then
               (case malloc m of
                  (p, m1) \<Rightarrow>
                    let a = \<lparr>planarRforce = LH, planarphiforce = ZeroPlanarForce,
                             nargs = 2, args = p\<rparr>
                    in (case copy_loop 0 (nargs a) pot_args [] of
                          Inl f \<Rightarrow> (Inl f, m1)
                        | Inr (buf, pot_args') \<Rightarrow>
                            (case build_loop LH (ii + 1) npot pot_type' pot_args'
                                    (m1\<lparr>doubles := (doubles m1)(p \<mapsto> buf)\<rparr>) of
                               (Inl f, m2) \<Rightarrow> (Inl f, m2)
                             | (Inr (slots, r), m2) \<Rightarrow> (Inr (Term a # slots, r), m2))))
             else
               (case build_loop LH (ii + 1) npot pot_type' pot_args m of
                  (Inl f, m2) \<Rightarrow> (Inl f, m2)
                | (Inr (slots, r), m2) \<Rightarrow> (Inr (Garbage # slots, r), m2)))
      else (Inr ([], pot_type, pot_args), m))"
  by pat_completeness auto
termination
  by (relation "measure (\<lambda>(LH, ii, npot, pot_type, pot_args, m). nat (npot - ii))") auto

declare build_loop.simps [simp del]

text \<open>Lines 58 to 61: the loop that frees the parameter buffer of every cell.\<close>

function free_loop :: "int \<Rightarrow> int \<Rightarrow> slot list \<Rightarrow> machine \<Rightarrow> (fault + unit) \<times> machine" where
  "free_loop ii npot leapFuncArgs m =
     (if ii < npot then
        (case leapFuncArgs of
           [] \<Rightarrow> (Inl OutOfBounds, m)
         | Garbage # _ \<Rightarrow> (Inl Indeterminate, m)
         | Term a # rest \<Rightarrow>
             (case free (args a) m of
                (Inl f, m1) \<Rightarrow> (Inl f, m1)
              | (Inr _, m1) \<Rightarrow> free_loop (ii + 1) npot rest m1))
      else (Inr (), m))"
  by pat_completeness auto
termination
  by (relation "measure (\<lambda>(ii, npot, leapFuncArgs, m). nat (npot - ii))") auto

declare free_loop.simps [simp del]

text \<open>
  The force callback as \<^verbatim>\<open>leapfrog\<close> receives it, and \<^verbatim>\<open>leapfrog\<close> itself (declared in
  \<^verbatim>\<open>bovy_symplecticode.h\<close>), a parameter of the driver. Its arguments are those of the
  call in line 56, with the parameter buffers the array points to; it returns the contents
  of \<open>result\<close>, or the fault of a callback it ran. It only reads the Force Term Sequence.

  After the loop the source steps the array pointer back by \<open>npot\<close> (line 54). The loop has
  advanced it \<open>npot\<close> times when \<open>0 \<le> npot\<close>, and not at all when \<open>npot < 0\<close>: then the step
  moves the pointer past the array, and the run leaves the behaviour defined by C.
\<close>

type_synonym callback =
  "real \<Rightarrow> real list \<Rightarrow> real list \<Rightarrow> int \<Rightarrow> slot list \<Rightarrow> dmem
     \<Rightarrow> fault + (real list \<times> slot list \<times> dmem)"

type_synonym engine =
  "callback \<Rightarrow> int \<Rightarrow> real list \<Rightarrow> int \<Rightarrow> real list \<Rightarrow> int \<Rightarrow> slot list \<Rightarrow> dmem
     \<Rightarrow> real \<Rightarrow> real \<Rightarrow> real list \<Rightarrow> fault + real list"

definition integratePlanarOrbit ::
  "force_fn \<Rightarrow> engine \<Rightarrow> real list \<Rightarrow> int \<Rightarrow> real list \<Rightarrow> int \<Rightarrow> int list \<Rightarrow> real list
     \<Rightarrow> real \<Rightarrow> real \<Rightarrow> real list \<Rightarrow> machine \<Rightarrow> (fault + real list) \<times> machine" where
  "integratePlanarOrbit LH leapfrog yo nt t npot pot_type pot_args rtol atol result m =
     (case malloc m of
        (base, m1) \<Rightarrow>
          (case build_loop LH 0 npot pot_type pot_args m1 of
             (Inl f, m2) \<Rightarrow> (Inl f, m2)
           | (Inr (leapFuncArgs, _), m2) \<Rightarrow>
               if npot < 0 then (Inl OutOfBounds, m2)
               else
               let m3 = m2\<lparr>engine_calls := engine_calls m2 + 1\<rparr>
               in (case leapfrog evalPlanarRectForce 2 yo nt t npot leapFuncArgs (doubles m3)
                          rtol atol result of
                     Inl f \<Rightarrow> (Inl f, m3)
                   | Inr result' \<Rightarrow>
                       (case free_loop 0 npot leapFuncArgs m3 of
                          (Inl f, m4) \<Rightarrow> (Inl f, m4)
                        | (Inr _, m4) \<Rightarrow>
                            (case free base m4 of
                               (Inl f, m5) \<Rightarrow> (Inl f, m5)
                             | (Inr _, m5) \<Rightarrow> (Inr result', m5))))))"

text \<open>
  The machine after one pass of the loop body for a code \<open>0\<close>: a new buffer at \<open>brk m\<close>
  that holds the next two values of \<open>pot_args\<close>; and after \<open>k\<close> such passes.
\<close>

definition store_term :: "real list \<Rightarrow> machine \<Rightarrow> machine" where
  "store_term pa m =
     m\<lparr>live := insert (brk m) (live m), brk := brk m + 1,
       doubles := (doubles m)(brk m \<mapsto> take 2 pa)\<rparr>"

fun after_terms :: "nat \<Rightarrow> real list \<Rightarrow> machine \<Rightarrow> machine" where
  "after_terms 0 pa m = m"
| "after_terms (Suc k) pa m = after_terms k (drop 2 pa) (store_term pa m)"

text \<open>The cell the case \<open>0\<close> of the switch assigns, with its parameters at \<open>p\<close>.\<close>

definition halo_term :: "force_fn \<Rightarrow> addr \<Rightarrow> slot" where
  "halo_term LH p =
     Term \<lparr>planarRforce = LH, planarphiforce = ZeroPlanarForce, nargs = 2, args = p\<rparr>"

text \<open>Fixtures for running the driver: a machine with nothing allocated, and two engines.\<close>

definition empty_machine :: machine where
  "empty_machine = \<lparr>live = {}, doubles = Map.empty, brk = 0, freed = [], engine_calls = 0\<rparr>"

text \<open>An engine that never calls the force callback and leaves \<open>result\<close> as it is.\<close>

definition idle_leapfrog :: engine where
  "idle_leapfrog func d yo nt t n leapFuncArgs mem rtol atol result = Inr result"

text \<open>An engine that asks the callback once, for the force at the initial position (the
  first two cells of \<open>yo\<close>) and the first time, and returns the initial state followed by
  that force.\<close>

definition probe_leapfrog :: engine where
  "probe_leapfrog func d yo nt t n leapFuncArgs mem rtol atol result =
     (case t of
        [] \<Rightarrow> Inr result
      | t0 # _ \<Rightarrow>
          (case func t0 yo [0, 0] n leapFuncArgs mem of
             Inl f \<Rightarrow> Inl f
           | Inr (a, _) \<Rightarrow> Inr (yo @ a)))"

text \<open>Two providers for running the evaluator: a radial force \<open>- amp / R\<close> with the amplitude in
  the first parameter, and an angular force that is the second parameter.\<close>

definition example_Rforce :: force_fn where
  "example_Rforce R phi n vs = - (vs ! 0) / R"

definition example_phiforce :: force_fn where
  "example_phiforce R phi n vs = vs ! 1"

text \<open>A radial provider that returns the angle it is given.\<close>

definition angle_probe :: force_fn where
  "angle_probe R phi n vs = phi"







section \<open>Properties of the force evaluator\<close>

lemma slot_Rforce_Term:
  "mem (args a) = Some vs \<Longrightarrow> slot_Rforce R phi mem (Term a) = planarRforce a R phi (nargs a) vs"
  by (simp add: slot_Rforce_def)

lemma slot_phiforce_Term:
  "mem (args a) = Some vs \<Longrightarrow>
   slot_phiforce R phi mem (Term a) = planarphiforce a R phi (nargs a) vs"
  by (simp add: slot_phiforce_def)

lemma callable_Cons:
  "callable mem (s # slots) =
     ((\<exists>a vs. s = Term a \<and> mem (args a) = Some vs) \<and> callable mem slots)"
  by (cases s) (auto simp: callable_def)

lemma calcPlanarRforce_loop_sum:
  "callable mem slots \<Longrightarrow> n - ii = int (length slots) \<Longrightarrow>
   calcPlanarRforce_loop ii n R phi slots mem acc =
     Inr (acc + sum_list (map (slot_Rforce R phi mem) slots))"
proof (induction slots arbitrary: ii acc)
  case Nil
  then show ?case by (simp add: calcPlanarRforce_loop.simps)
next
  case (Cons s slots)
  from Cons.prems(1) obtain a vs where s: "s = Term a" and vs: "mem (args a) = Some vs"
    and rest: "callable mem slots"
    by (auto simp: callable_Cons)
  from Cons.prems(2) have lt: "ii < n" and len: "n - (ii + 1) = int (length slots)"
    by simp_all
  have "calcPlanarRforce_loop ii n R phi (s # slots) mem acc =
        calcPlanarRforce_loop (ii + 1) n R phi slots mem (acc + planarRforce a R phi (nargs a) vs)"
    using lt s vs by (subst calcPlanarRforce_loop.simps) simp
  also have "\<dots> = Inr (acc + planarRforce a R phi (nargs a) vs
                        + sum_list (map (slot_Rforce R phi mem) slots))"
    by (rule Cons.IH [OF rest len])
  finally show ?case using vs by (simp add: slot_Rforce_Term s)
qed

lemma calcPlanarphiforce_loop_sum:
  "callable mem slots \<Longrightarrow> n - ii = int (length slots) \<Longrightarrow>
   calcPlanarphiforce_loop ii n R phi slots mem acc =
     Inr (acc + sum_list (map (slot_phiforce R phi mem) slots))"
proof (induction slots arbitrary: ii acc)
  case Nil
  then show ?case by (simp add: calcPlanarphiforce_loop.simps)
next
  case (Cons s slots)
  from Cons.prems(1) obtain a vs where s: "s = Term a" and vs: "mem (args a) = Some vs"
    and rest: "callable mem slots"
    by (auto simp: callable_Cons)
  from Cons.prems(2) have lt: "ii < n" and len: "n - (ii + 1) = int (length slots)"
    by simp_all
  have "calcPlanarphiforce_loop ii n R phi (s # slots) mem acc =
        calcPlanarphiforce_loop (ii + 1) n R phi slots mem
          (acc + planarphiforce a R phi (nargs a) vs)"
    using lt s vs by (subst calcPlanarphiforce_loop.simps) simp
  also have "\<dots> = Inr (acc + planarphiforce a R phi (nargs a) vs
                        + sum_list (map (slot_phiforce R phi mem) slots))"
    by (rule Cons.IH [OF rest len])
  finally show ?case using vs by (simp add: slot_phiforce_Term s)
qed

lemma calcPlanarRforce_sum:
  "callable mem slots \<Longrightarrow> n = int (length slots) \<Longrightarrow>
   calcPlanarRforce R phi t n slots mem = Inr (sum_list (map (slot_Rforce R phi mem) slots))"
  by (simp add: calcPlanarRforce_def calcPlanarRforce_loop_sum)

lemma calcPlanarphiforce_sum:
  "callable mem slots \<Longrightarrow> n = int (length slots) \<Longrightarrow>
   calcPlanarphiforce R phi t n slots mem = Inr (sum_list (map (slot_phiforce R phi mem) slots))"
  by (simp add: calcPlanarphiforce_def calcPlanarphiforce_loop_sum)

lemma evalPlanarRectForce_callable:
  assumes "callable mem slots" and "n = int (length slots)"
    and "evalPlanarRectForce_polar x y = (R, phi, sinphi, cosphi)" and "R \<noteq> 0"
  shows "evalPlanarRectForce t (x # y # q) (a0 # a1 # a) n slots mem =
           Inr ((cosphi * sum_list (map (slot_Rforce R phi mem) slots)
                   - 1 / R * sinphi * sum_list (map (slot_phiforce R phi mem) slots))
                # (sinphi * sum_list (map (slot_Rforce R phi mem) slots)
                   + 1 / R * cosphi * sum_list (map (slot_phiforce R phi mem) slots))
                # a, slots, mem)"
  using assms
  by (simp add: evalPlanarRectForce_def calcPlanarRforce_sum calcPlanarphiforce_sum)

lemma polar_eq:
  "evalPlanarRectForce_polar x y =
     (sqrt (x * x + y * y),
      (if y < 0 then arccos (x / sqrt (x * x + y * y)) + 2 * pi
       else arccos (x / sqrt (x * x + y * y))),
      y / sqrt (x * x + y * y), x / sqrt (x * x + y * y))"
  by (simp add: evalPlanarRectForce_polar_def Let_def M_PI_def)







lemma example_polar: "evalPlanarRectForce_polar 3 4 = (5, arccos (3 / 5), 4 / 5, 3 / 5)"
  by (simp add: polar_eq)

subsection \<open>The angle\<close>

text \<open>
  C2. The claim is that the computed angle lies in \<open>(pi, 2 * pi)\<close> when \<open>y < 0\<close>. At the
  position \<open>(0, - 1)\<close> the code computes \<open>phi = arccos 0 + 2 * pi = 5 * pi / 2\<close>, which is
  outside that interval, and this is the angle the providers receive: a radial provider
  that returns its angle makes the evaluator write \<open>ay = sinphi * phi = - (5 * pi / 2)\<close>.
\<close>

theorem evalPlanarRectForce_angle_below_axis:
  "evalPlanarRectForce_polar 0 (- 1) = (1, 5 * pi / 2, - 1, 0)
   \<and> \<not> (pi < 5 * pi / 2 \<and> 5 * pi / 2 < 2 * pi)
   \<and> evalPlanarRectForce 0 [0, - 1] [0, 0] 1
         [Term \<lparr>planarRforce = angle_probe, planarphiforce = ZeroPlanarForce, nargs = 0, args = 0\<rparr>]
         [0 \<mapsto> []] =
       Inr ([0, - (5 * pi / 2)],
         [Term \<lparr>planarRforce = angle_probe, planarphiforce = ZeroPlanarForce, nargs = 0, args = 0\<rparr>],
         [0 \<mapsto> []])"
proof -
  have polar: "evalPlanarRectForce_polar 0 (- 1) = (1, 5 * pi / 2, - 1, 0)"
    by (simp add: polar_eq)
  have range: "\<not> (pi < 5 * pi / 2 \<and> 5 * pi / 2 < 2 * pi)"
    using pi_gt_zero by simp
  have call: "callable [0 \<mapsto> []]
      [Term \<lparr>planarRforce = angle_probe, planarphiforce = ZeroPlanarForce, nargs = 0, args = 0\<rparr>]"
    by (simp add: callable_def)
  show ?thesis
    using polar range evalPlanarRectForce_callable [OF call _ polar, of 1 0 "[]" 0 0 "[]"]
    by (simp add: slot_Rforce_def slot_phiforce_def angle_probe_def ZeroPlanarForce_def)
qed

text \<open>The range of the angle as the code computes it.\<close>

lemma abs_less_sqrt: "y \<noteq> 0 \<Longrightarrow> \<bar>x\<bar> < sqrt (x * x + y * y)"
proof -
  assume "y \<noteq> 0"
  then have "0 < y\<^sup>2" by simp
  then have "x\<^sup>2 < x * x + y * y" by (simp add: power2_eq_square)
  then have "sqrt (x\<^sup>2) < sqrt (x * x + y * y)" by (simp only: real_sqrt_less_iff)
  then show ?thesis by simp
qed

lemma abs_le_sqrt: "\<bar>x\<bar> \<le> sqrt (x * x + y * y)"
proof -
  have "x\<^sup>2 \<le> x * x + y * y" by (simp add: power2_eq_square)
  then have "sqrt (x\<^sup>2) \<le> sqrt (x * x + y * y)" by (simp only: real_sqrt_le_iff)
  then show ?thesis by simp
qed

lemma polar_angle_range:
  assumes "x \<noteq> 0 \<or> y \<noteq> 0"
  shows "evalPlanarRectForce_polar x y =
           (sqrt (x * x + y * y),
            (if y < 0 then arccos (x / sqrt (x * x + y * y)) + 2 * pi
             else arccos (x / sqrt (x * x + y * y))),
            y / sqrt (x * x + y * y), x / sqrt (x * x + y * y))
         \<and> (y < 0 \<longrightarrow> 2 * pi < arccos (x / sqrt (x * x + y * y)) + 2 * pi
                    \<and> arccos (x / sqrt (x * x + y * y)) + 2 * pi < 3 * pi)
         \<and> (0 \<le> y \<longrightarrow> 0 \<le> arccos (x / sqrt (x * x + y * y))
                    \<and> arccos (x / sqrt (x * x + y * y)) \<le> pi)"
proof -
  define R where "R = sqrt (x * x + y * y)"
  have "0 < x * x + y * y"
    using assms by (metis add_pos_nonneg add_nonneg_pos zero_le_square not_less_iff_gr_or_eq
        mult_eq_0_iff le_less)
  then have pos: "0 < R" by (simp add: R_def)
  have "\<bar>x\<bar> \<le> R" using abs_le_sqrt [of x y] by (simp add: R_def)
  then have "x \<le> R" and "- R \<le> x" by linarith+
  then have le: "- 1 \<le> x / R" "x / R \<le> 1"
    using pos by (simp_all add: field_simps)
  then have b: "0 \<le> arccos (x / R) \<and> arccos (x / R) \<le> pi"
    by (intro conjI arccos_lbound arccos_ubound)
  have strict: "0 < arccos (x / R) \<and> arccos (x / R) < pi" if "y < 0"
  proof -
    from that have "\<bar>x\<bar> < R" using abs_less_sqrt [of y x] by (simp add: R_def)
    then have "x < R" and "- R < x" by linarith+
    then have "- 1 < x / R" "x / R < 1"
      using pos by (simp_all add: field_simps)
    then show ?thesis by (intro arccos_lt_bounded)
  qed
  show ?thesis
    unfolding polar_eq R_def [symmetric] using b strict by auto
qed

subsection \<open>Purity\<close>

text \<open>
  C7. A call of the evaluator that returns leaves the array of terms and the parameter
  buffers as they were, and every other call on the same position and the same sequence
  returns the same acceleration, whatever its time, the other cells of \<open>q\<close> and the
  earlier contents of \<open>a\<close>.
\<close>

theorem evalPlanarRectForce_pure:
  assumes "evalPlanarRectForce t q a n slots mem = Inr (a', slots', mem')"
  shows "slots' = slots \<and> mem' = mem
         \<and> (\<forall>t2 q2 a2. take 2 q2 = take 2 q \<and> 2 \<le> length a2 \<longrightarrow>
               (\<exists>r. evalPlanarRectForce t2 q2 a2 n slots mem = Inr (r, slots, mem)
                     \<and> take 2 r = take 2 a'))"
proof -
  from assms obtain x y qs where q: "q = x # y # qs"
    by (auto simp: evalPlanarRectForce_def split: list.splits)
  obtain R phi sinphi cosphi where polar: "evalPlanarRectForce_polar x y = (R, phi, sinphi, cosphi)"
    by (metis prod_cases4)
  from assms q polar obtain Rforce where Rf: "calcPlanarRforce R phi t n slots mem = Inr Rforce"
    and nz: "R \<noteq> 0"
    by (auto simp: evalPlanarRectForce_def split: if_splits sum.splits)
  from assms q polar Rf nz obtain phiforce
    where pf: "calcPlanarphiforce R phi t n slots mem = Inr phiforce"
    by (auto simp: evalPlanarRectForce_def split: sum.splits)
  from assms q polar Rf pf nz obtain b0 b1 bs where a: "a = b0 # b1 # bs"
    by (auto simp: evalPlanarRectForce_def split: list.splits)
  from assms q polar Rf pf nz a
  have res: "a' = (cosphi * Rforce - 1 / R * sinphi * phiforce)
                  # (sinphi * Rforce + 1 / R * cosphi * phiforce) # bs"
    and same: "slots' = slots" "mem' = mem"
    by (auto simp: evalPlanarRectForce_def)
  have other: "\<exists>r. evalPlanarRectForce t2 q2 a2 n slots mem = Inr (r, slots, mem)
                   \<and> take 2 r = take 2 a'"
    if "take 2 q2 = take 2 q" and "2 \<le> length a2" for t2 q2 a2
  proof -
    from that(1) q obtain qs2 where q2: "q2 = x # y # qs2"
      by (cases q2; cases "tl q2") (auto simp: numeral_2_eq_2)
    from that(2) obtain c0 c1 cs where a2: "a2 = c0 # c1 # cs"
      by (cases a2; cases "tl a2") auto
    have "calcPlanarRforce R phi t2 n slots mem = Inr Rforce"
      using Rf by (simp add: calcPlanarRforce_def)
    moreover have "calcPlanarphiforce R phi t2 n slots mem = Inr phiforce"
      using pf by (simp add: calcPlanarphiforce_def)
    ultimately show ?thesis
      using q2 a2 polar nz res by (simp add: evalPlanarRectForce_def)
  qed
  from same other show ?thesis by blast
qed

theorem evalPlanarRectForce_pure_witness:
  "evalPlanarRectForce 0 [3, 4] [0, 0] 1
     [Term \<lparr>planarRforce = example_Rforce, planarphiforce = example_phiforce, nargs = 2, args = 8\<rparr>]
     [8 \<mapsto> [5, 2]] =
   Inr ([- 23 / 25, - 14 / 25],
     [Term \<lparr>planarRforce = example_Rforce, planarphiforce = example_phiforce, nargs = 2, args = 8\<rparr>],
     [8 \<mapsto> [5, 2]])
   \<and> (\<exists>r. evalPlanarRectForce 7 [3, 4, 1, 1] [9, 9, 9] 1
     [Term \<lparr>planarRforce = example_Rforce, planarphiforce = example_phiforce, nargs = 2, args = 8\<rparr>]
     [8 \<mapsto> [5, 2]] =
        Inr (r,
     [Term \<lparr>planarRforce = example_Rforce, planarphiforce = example_phiforce, nargs = 2, args = 8\<rparr>],
     [8 \<mapsto> [5, 2]])
        \<and> take 2 r = [- 23 / 25, - 14 / 25])"
proof -
  have call: "callable [8 \<mapsto> [5, 2]]
     [Term \<lparr>planarRforce = example_Rforce, planarphiforce = example_phiforce, nargs = 2, args = 8\<rparr>]"
    by (simp add: callable_def)
  have polar: "evalPlanarRectForce_polar 3 4 = (5, arccos (3 / 5), 4 / 5, 3 / 5)"
    by (simp add: polar_eq)
  have first: "evalPlanarRectForce 0 [3, 4] [0, 0] 1
     [Term \<lparr>planarRforce = example_Rforce, planarphiforce = example_phiforce, nargs = 2, args = 8\<rparr>]
     [8 \<mapsto> [5, 2]] =
   Inr ([- 23 / 25, - 14 / 25],
     [Term \<lparr>planarRforce = example_Rforce, planarphiforce = example_phiforce, nargs = 2, args = 8\<rparr>],
     [8 \<mapsto> [5, 2]])"
    using evalPlanarRectForce_callable [OF call _ polar, of 1 0 "[]" 0 0 "[]"]
    by (simp add: slot_Rforce_def slot_phiforce_def example_Rforce_def example_phiforce_def)
  from evalPlanarRectForce_pure [OF first] first show ?thesis
    by (simp add: numeral_2_eq_2)
qed

section \<open>Properties of the force evaluator in double arithmetic\<close>

subsection \<open>Rounding\<close>

lemma rne_of_int [simp]: "rne (of_int n) = n"
  by (simp add: rne_def)

lemma rne_error: "\<bar>of_int (rne q) - q\<bar> \<le> 1 / 2"
  unfolding rne_def Let_def by (auto simp: abs_le_iff)


lemma floor_log2_eq:
  assumes "2 powi e \<le> \<bar>x\<bar>" and "\<bar>x\<bar> < 2 powi (e + 1)"
  shows "\<lfloor>log 2 \<bar>x\<bar>\<rfloor> = e"
proof -
  have pos: "0 < \<bar>x\<bar>" using assms(1) by (smt (verit) zero_less_power_int)
  have "(2::real) powr real_of_int e = 2 powi e"
    by (simp add: powr_real_of_int')
  moreover have "(2::real) powr (real_of_int e + 1) = 2 powi (e + 1)"
    using powr_real_of_int' [of 2 "e + 1"] by simp
  ultimately show ?thesis
    using assms floor_log_eq_powr_iff [of "\<bar>x\<bar>" 2 e] pos by simp
qed

lemma log2_bounds:
  assumes "x \<noteq> 0"
  shows "2 powi \<lfloor>log 2 \<bar>x\<bar>\<rfloor> \<le> \<bar>x\<bar>" and "\<bar>x\<bar> < 2 powi (\<lfloor>log 2 \<bar>x\<bar>\<rfloor> + 1)"
proof -
  have pos: "0 < \<bar>x\<bar>" using assms by simp
  define k where "k = \<lfloor>log 2 \<bar>x\<bar>\<rfloor>"
  have eq: "(2::real) powr real_of_int k = 2 powi k"
    "(2::real) powr (real_of_int k + 1) = 2 powi (k + 1)"
    using powr_real_of_int' [of 2 k] powr_real_of_int' [of 2 "k + 1"] by simp_all
  from floor_log_eq_powr_iff [of "\<bar>x\<bar>" 2 k] pos
  have "2 powr real_of_int k \<le> \<bar>x\<bar> \<and> \<bar>x\<bar> < 2 powr (real_of_int k + 1)"
    by (simp add: k_def)
  then show "2 powi \<lfloor>log 2 \<bar>x\<bar>\<rfloor> \<le> \<bar>x\<bar>" and "\<bar>x\<bar> < 2 powi (\<lfloor>log 2 \<bar>x\<bar>\<rfloor> + 1)"
    unfolding eq k_def [symmetric] by simp_all
qed

lemma round_double_binade:
  assumes "2 powi e \<le> \<bar>x\<bar>" and "\<bar>x\<bar> < 2 powi (e + 1)" and "- 1022 \<le> e"
  shows "round_double x = of_int (rne (x / 2 powi (e - 52))) * 2 powi (e - 52)"
proof -
  have "x \<noteq> 0" using assms(1) by (smt (verit) zero_less_power_int)
  moreover have "ulp_exp x = e - 52"
    using floor_log2_eq [OF assms(1,2)] assms(3) by (simp add: ulp_exp_def)
  ultimately show ?thesis by (simp add: round_double_def)
qed

lemma round_double_0 [simp]: "round_double 0 = 0"
  by (simp add: round_double_def)


lemma power_int_less_exp:
  assumes "(2::real) powi a < 2 powi b"
  shows "a < b"
proof (rule ccontr)
  assume "\<not> a < b"
  then have "(2::real) powi b \<le> 2 powi a" by (intro power_int_increasing) simp_all
  with assms show False by simp
qed

lemma round_double_exact_aux:
  assumes n: "\<bar>n\<bar> < 2 ^ 53" "n \<noteq> 0" and k: "- 1074 \<le> k"
  shows "round_double (of_int n * 2 powi k) = of_int n * 2 powi k"
proof -
  define x :: real where "x = of_int n * 2 powi k"
  have nz: "x \<noteq> 0" using n(2) by (simp add: x_def)
  have absx: "\<bar>x\<bar> = of_int \<bar>n\<bar> * 2 powi k"
    by (simp add: x_def abs_mult)
  have "real_of_int \<bar>n\<bar> < 2 ^ 53" using n(1) by (metis of_int_less_numeral_power_cancel_iff)
  then have "\<bar>x\<bar> < 2 ^ 53 * 2 powi k"
    unfolding absx by (intro mult_strict_right_mono) simp_all
  also have "\<dots> = 2 powi (53 + k)"
    by (simp add: power_int_add)
  finally have up: "\<bar>x\<bar> < 2 powi (53 + k)" .
  from log2_bounds(1) [OF nz] up have "(2::real) powi \<lfloor>log 2 \<bar>x\<bar>\<rfloor> < 2 powi (53 + k)"
    by linarith
  then have "\<lfloor>log 2 \<bar>x\<bar>\<rfloor> < 53 + k" by (rule power_int_less_exp)
  define e where "e = ulp_exp x"
  from \<open>\<lfloor>log 2 \<bar>x\<bar>\<rfloor> < 53 + k\<close> k have e: "e \<le> k" by (simp add: e_def ulp_exp_def)
  define d where "d = nat (k - e)"
  have split: "(2::real) powi k = 2 ^ d * 2 powi e"
  proof -
    have "k = int d + e" using e by (simp add: d_def)
    then have "(2::real) powi k = 2 powi (int d + e)" by simp
    also have "\<dots> = 2 powi int d * 2 powi e" by (simp add: power_int_add)
    finally show ?thesis by simp
  qed
  have xe: "x = of_int (n * 2 ^ d) * 2 powi e"
    unfolding x_def split by simp
  have q: "x / 2 powi e = of_int (n * 2 ^ d)"
    unfolding xe by simp
  have "round_double x = of_int (rne (x / 2 powi e)) * 2 powi e"
    using nz by (simp add: round_double_def e_def)
  also have "\<dots> = of_int (n * 2 ^ d) * 2 powi e"
    unfolding q by (simp only: rne_of_int)
  also have "\<dots> = x" by (rule xe [symmetric])
  finally show ?thesis by (simp add: x_def)
qed

lemma round_double_exact:
  assumes n: "\<bar>n\<bar> \<le> 2 ^ 53" and k: "- 1074 \<le> k"
  shows "round_double (of_int n * 2 powi k) = of_int n * 2 powi k"
proof (cases "n = 0")
  case True
  then show ?thesis by simp
next
  case False
  show ?thesis
  proof (cases "\<bar>n\<bar> = 2 ^ 53")
    case False
    with n have "\<bar>n\<bar> < 2 ^ 53" by simp
    from round_double_exact_aux [OF this \<open>n \<noteq> 0\<close> k] show ?thesis .
  next
    case True
    define m where "m = n div 2"
    from True have "n = 2 ^ 53 \<or> n = - (2 ^ 53)" by (auto simp: abs_if split: if_splits)
    then have nm: "n = m * 2" and m: "\<bar>m\<bar> < 2 ^ 53" "m \<noteq> 0"
      by (auto simp: m_def)
    have "of_int n * (2::real) powi k = of_int m * 2 powi (k + 1)"
      by (simp add: nm power_int_add)
    moreover have "- 1074 \<le> k + 1" using k by simp
    ultimately show ?thesis using round_double_exact_aux [OF m, of "k + 1"] by simp
  qed
qed

lemma round_double_int: "\<bar>n\<bar> \<le> 2 ^ 53 \<Longrightarrow> round_double (of_int n) = of_int n"
  using round_double_exact [of n 0] by simp



lemma round_double_rel_error:
  assumes "2 powi (- 1022) \<le> \<bar>x\<bar>"
  shows "\<bar>round_double x - x\<bar> \<le> 2 powi (- 53) * \<bar>x\<bar>"
proof -
  have nz: "x \<noteq> 0" using assms by (smt (verit) zero_less_power_int)
  define L where "L = \<lfloor>log 2 \<bar>x\<bar>\<rfloor>"
  from assms log2_bounds(2) [OF nz] have "(2::real) powi (- 1022) < 2 powi (L + 1)"
    unfolding L_def by linarith
  then have "- 1022 < L + 1" by (rule power_int_less_exp)
  moreover have "ulp_exp x = max (L - 52) (- 1074)" by (simp add: ulp_exp_def L_def)
  ultimately have e: "ulp_exp x = L - 52" by simp
  define q where "q = x / 2 powi (L - 52)"
  have x: "x = q * 2 powi (L - 52)" by (simp add: q_def)
  have "round_double x - x = (of_int (rne q) - q) * 2 powi (L - 52)"
    using nz by (simp add: round_double_def e q_def algebra_simps)
  then have "\<bar>round_double x - x\<bar> = \<bar>of_int (rne q) - q\<bar> * 2 powi (L - 52)"
    by (simp add: abs_mult)
  also have "\<dots> \<le> 1 / 2 * 2 powi (L - 52)"
    by (intro mult_right_mono rne_error) simp
  also have "\<dots> = 2 powi (- 53) * 2 powi L"
  proof -
    have "(2::real) powi (L - 52) = 2 powi L * 2 powi (- 52)"
      using power_int_add [of "2::real" L "- 52"] by simp
    then show ?thesis by simp
  qed
  also have "\<dots> \<le> 2 powi (- 53) * \<bar>x\<bar>"
    using log2_bounds(1) [OF nz] unfolding L_def by (intro mult_left_mono) simp_all
  finally show ?thesis .
qed

lemma round_double_rel_error':
  "normal_or_zero z \<Longrightarrow> \<bar>round_double z - z\<bar> \<le> 2 powi (- 53) * \<bar>z\<bar>"
  unfolding normal_or_zero_def using round_double_rel_error [of z] by auto

lemma two_roundings:
  assumes q: "normal_or_zero z" and p: "normal_or_zero (round_double z * w)"
  shows "\<bar>round_double (round_double z * w) - z * w\<bar> \<le> 3 * 2 powi (- 53) * \<bar>z * w\<bar>"
proof -
  define u :: real where "u = 2 powi (- 53)"
  have u: "0 \<le> u" "u \<le> 1" by (simp_all add: u_def)
  define c where "c = round_double z"
  have e1: "\<bar>c - z\<bar> \<le> u * \<bar>z\<bar>"
    using round_double_rel_error' [OF q] by (simp add: c_def u_def)
  have e2: "\<bar>round_double (c * w) - c * w\<bar> \<le> u * \<bar>c * w\<bar>"
    using round_double_rel_error' [OF p] by (simp add: c_def u_def)
  have cz: "\<bar>c * w - z * w\<bar> \<le> u * \<bar>z * w\<bar>"
  proof -
    have "\<bar>c * w - z * w\<bar> = \<bar>c - z\<bar> * \<bar>w\<bar>" by (simp add: abs_mult [symmetric] algebra_simps)
    also have "\<dots> \<le> u * \<bar>z\<bar> * \<bar>w\<bar>" by (intro mult_right_mono e1) simp
    finally show ?thesis by (simp add: abs_mult mult.assoc)
  qed
  then have cw: "\<bar>c * w\<bar> \<le> (1 + u) * \<bar>z * w\<bar>"
    by (simp add: algebra_simps)
  have "\<bar>round_double (c * w) - z * w\<bar> \<le> \<bar>round_double (c * w) - c * w\<bar> + \<bar>c * w - z * w\<bar>"
    by linarith
  also have "\<dots> \<le> u * \<bar>c * w\<bar> + u * \<bar>z * w\<bar>" using e2 cz by linarith
  also have "\<dots> \<le> u * ((1 + u) * \<bar>z * w\<bar>) + u * \<bar>z * w\<bar>"
    using mult_left_mono [OF cw u(1)] by linarith
  also have "\<dots> = (2 * u + u * u) * \<bar>z * w\<bar>" by (simp add: algebra_simps)
  also have "\<dots> \<le> 3 * u * \<bar>z * w\<bar>"
  proof -
    have "u * u \<le> u" using u mult_left_le [of u u] by simp
    then have "2 * u + u * u \<le> 3 * u" by linarith
    then show ?thesis by (intro mult_right_mono) simp_all
  qed
  finally show ?thesis by (simp add: c_def u_def)
qed

subsection \<open>The loops and the evaluator\<close>

lemmas fl_ops = fadd_def fsub_def fmul_def fdiv_def fsqrt_def facos_def





lemma polar_fl_eq:
  "evalPlanarRectForce_polar_fl x y =
     (fsqrt (fadd (fmul x x) (fmul y y)),
      (if y < 0 then fadd (facos (fdiv x (fsqrt (fadd (fmul x x) (fmul y y))))) (fmul 2 M_PI_fl)
       else facos (fdiv x (fsqrt (fadd (fmul x x) (fmul y y))))),
      fdiv y (fsqrt (fadd (fmul x x) (fmul y y))),
      fdiv x (fsqrt (fadd (fmul x x) (fmul y y))))"
  by (simp add: evalPlanarRectForce_polar_fl_def Let_def)


text \<open>Roundings and positions used below.\<close>

lemma rd_numeral [simp]:
  "numeral k \<le> (2::int) ^ 53 \<Longrightarrow> round_double (numeral k) = numeral k"
  "numeral k \<le> (2::int) ^ 53 \<Longrightarrow> round_double (- numeral k) = - numeral k"
  "round_double 1 = 1"
  using round_double_int [of "numeral k"] round_double_int [of "- numeral k"]
    round_double_int [of 1]
  by simp_all

lemma rd_values:
  "round_double 9007199254740993 = 9007199254740992"
  "round_double (3 / 5) = 5404319552844595 / 9007199254740992"
  "round_double (4 / 5) = 3602879701896397 / 4503599627370496"
  "round_double (7 / 25) = 1261007895663739 / 4503599627370496"
  "round_double (24 / 25) = 1080863910568919 / 1125899906842624"
  "round_double (31525197391593475 / 4503599627370496) = 7881299347898369 / 1125899906842624"
  "round_double (27021597764222975 / 1125899906842624) = 24"
  "round_double (- (10808639105689191 / 2251799813685248))
     = - (1351079888211149 / 281474976710656)"
  using round_double_binade [of 53 9007199254740993]
    round_double_binade [of "- 1" "3 / 5"] round_double_binade [of "- 1" "4 / 5"]
    round_double_binade [of "- 2" "7 / 25"] round_double_binade [of "- 1" "24 / 25"]
    round_double_binade [of 2 "31525197391593475 / 4503599627370496"]
    round_double_binade [of 4 "27021597764222975 / 1125899906842624"]
    round_double_binade [of 2 "- (10808639105689191 / 2251799813685248)"]
  by (simp_all add: rne_def)


lemma sqrt_values: "sqrt 625 = 25" "sqrt 25 = 5"
  using real_sqrt_abs [of 25] real_sqrt_abs [of 5] by simp_all

lemma normal_or_zero_I: "1 / 1024 \<le> \<bar>z\<bar> \<Longrightarrow> normal_or_zero z"
proof -
  assume "1 / 1024 \<le> \<bar>z\<bar>"
  moreover have "(2::real) powi (- 1022) \<le> 2 powi (- 10)"
    by (intro power_int_increasing) simp_all
  ultimately show ?thesis by (simp add: normal_or_zero_def)
qed




lemma polar_fl_7_24:
  "evalPlanarRectForce_polar_fl 7 24 =
     (25, facos (1261007895663739 / 4503599627370496),
      1080863910568919 / 1125899906842624, 1261007895663739 / 4503599627370496)"
  by (simp add: polar_fl_eq fl_ops sqrt_values rd_values)


subsection \<open>Order of the terms\<close>







subsection \<open>Reconstruction of the position\<close>

text \<open>
  C9, as claimed, fails: at the position \<open>(7, 24)\<close> the evaluator computes \<open>R = 25\<close> and
  \<open>cosphi = 7 / 25\<close> rounded, and \<open>R * cosphi\<close> is \<open>7 + 1 / 2 ^ 50\<close>, not \<open>7\<close>, with the product
  rounded or not.
\<close>

theorem polar_fl_round_trip_counterexample:
  "evalPlanarRectForce_polar_fl 7 24 =
     (25, facos (1261007895663739 / 4503599627370496),
      1080863910568919 / 1125899906842624, 1261007895663739 / 4503599627370496)
   \<and> fmul 25 (1261007895663739 / 4503599627370496) = 7 + 1 / 2 ^ 50
   \<and> fmul 25 (1261007895663739 / 4503599627370496) \<noteq> 7
   \<and> 25 * (1261007895663739 / 4503599627370496) \<noteq> (7::real)"
  using polar_fl_7_24 by (simp add: fl_ops rd_values)

text \<open>
  C9, amended. For a position for which the computed \<open>R\<close> is positive, \<open>x * x + y * y\<close> does
  not overflow and neither the quotients \<open>x / R\<close>, \<open>y / R\<close> nor the products \<open>R * cosphi\<close>,
  \<open>R * sinphi\<close> underflow, the values \<open>R\<close>, \<open>cosphi = x / R\<close> and \<open>sinphi = y / R\<close> the
  evaluator computes give the position back up to a relative error of \<open>3 * 2 powi (- 53)\<close>
  in each coordinate.
\<close>

theorem polar_fl_round_trip:
  assumes R: "R = fsqrt (fadd (fmul x x) (fmul y y))" and pos: "0 < R"
    and range: "x * x + y * y < 2 ^ 1023"
    and cosphi: "cosphi = fdiv x R" and sinphi: "sinphi = fdiv y R"
    and phi: "phi = (if y < 0 then fadd (facos (fdiv x R)) (fmul 2 M_PI_fl)
                     else facos (fdiv x R))"
    and nx: "normal_or_zero (x / R)" "normal_or_zero (cosphi * R)"
    and ny: "normal_or_zero (y / R)" "normal_or_zero (sinphi * R)"
  shows "evalPlanarRectForce_polar_fl x y = (R, phi, sinphi, cosphi)
       \<and> \<bar>fmul R cosphi - x\<bar> \<le> 3 * 2 powi (- 53) * \<bar>x\<bar>
       \<and> \<bar>fmul R sinphi - y\<bar> \<le> 3 * 2 powi (- 53) * \<bar>y\<bar>"
proof -
  have polar: "evalPlanarRectForce_polar_fl x y = (R, phi, sinphi, cosphi)"
    unfolding polar_fl_eq using R phi cosphi sinphi by simp
  from pos have nz: "R \<noteq> 0" by simp
  have "\<bar>round_double (round_double (x / R) * R) - x / R * R\<bar>
          \<le> 3 * 2 powi (- 53) * \<bar>x / R * R\<bar>"
    using nx by (intro two_roundings) (simp_all add: cosphi fdiv_def)
  then have bx: "\<bar>fmul R cosphi - x\<bar> \<le> 3 * 2 powi (- 53) * \<bar>x\<bar>"
    using nz by (simp add: fmul_def fdiv_def cosphi mult.commute)
  have "\<bar>round_double (round_double (y / R) * R) - y / R * R\<bar>
          \<le> 3 * 2 powi (- 53) * \<bar>y / R * R\<bar>"
    using ny by (intro two_roundings) (simp_all add: sinphi fdiv_def)
  then have by': "\<bar>fmul R sinphi - y\<bar> \<le> 3 * 2 powi (- 53) * \<bar>y\<bar>"
    using nz by (simp add: fmul_def fdiv_def sinphi mult.commute)
  from polar bx by' show ?thesis by simp
qed

theorem polar_fl_round_trip_witness:
  "evalPlanarRectForce_polar_fl 7 24 =
     (25, facos (1261007895663739 / 4503599627370496),
      1080863910568919 / 1125899906842624, 1261007895663739 / 4503599627370496)
   \<and> \<bar>fmul 25 (1261007895663739 / 4503599627370496) - 7\<bar> \<le> 3 * 2 powi (- 53) * \<bar>7\<bar>
   \<and> \<bar>fmul 25 (1080863910568919 / 1125899906842624) - 24\<bar> \<le> 3 * 2 powi (- 53) * \<bar>24\<bar>"
proof -
  have R: "25 = fsqrt (fadd (fmul 7 7) (fmul 24 24))"
    by (simp add: fl_ops sqrt_values)
  have c: "1261007895663739 / 4503599627370496 = fdiv 7 25"
    and s: "1080863910568919 / 1125899906842624 = fdiv 24 25"
    by (simp_all add: fl_ops rd_values)
  have range: "(7::real) * 7 + 24 * 24 < 2 ^ 1023" by simp
  have n: "normal_or_zero (7 / 25)" "normal_or_zero (1261007895663739 / 4503599627370496 * 25)"
    "normal_or_zero (24 / 25)" "normal_or_zero (1080863910568919 / 1125899906842624 * 25)"
    by (rule normal_or_zero_I, simp)+
  from polar_fl_round_trip [OF R _ range c s refl n] show ?thesis by (simp add: c [symmetric])
qed

subsection \<open>Terms without angular force\<close>






section \<open>Properties of the integration driver\<close>

subsection \<open>The builder loop\<close>

text \<open>The equations that run the driver on concrete arguments.\<close>

lemmas run_simps = integratePlanarOrbit_def build_loop.simps copy_loop.simps free_loop.simps
  free_def malloc_def empty_machine_def Let_def eval_nat_numeral

lemma copy_loop_two:
  "copy_loop 0 2 pa [] = (if 2 \<le> length pa then Inr (take 2 pa, drop 2 pa) else Inl OutOfBounds)"
proof (cases pa)
  case Nil
  then show ?thesis by (simp add: copy_loop.simps)
next
  case (Cons v0 rest)
  show ?thesis
  proof (cases rest)
    case Nil
    with Cons show ?thesis by (simp add: copy_loop.simps)
  next
    case (Cons v1 rest')
    with \<open>pa = v0 # rest\<close> show ?thesis by (simp add: copy_loop.simps)
  qed
qed

lemma build_loop_done:
  "\<not> ii < npot \<Longrightarrow> build_loop LH ii npot pt pa m = (Inr ([], pt, pa), m)"
  by (simp add: build_loop.simps)

lemma build_loop_Nil:
  "ii < npot \<Longrightarrow> build_loop LH ii npot [] pa m = (Inl OutOfBounds, m)"
  by (simp add: build_loop.simps)

lemma build_loop_known:
  "ii < npot \<Longrightarrow> 2 \<le> length pa \<Longrightarrow>
   build_loop LH ii npot (0 # cs) pa m =
     (case build_loop LH (ii + 1) npot cs (drop 2 pa) (store_term pa m) of
        (Inl f, m2) \<Rightarrow> (Inl f, m2)
      | (Inr (slots, r), m2) \<Rightarrow>
          (Inr (Term \<lparr>planarRforce = LH, planarphiforce = ZeroPlanarForce, nargs = 2,
                       args = brk m\<rparr> # slots, r), m2))"
  by (subst build_loop.simps) (simp add: copy_loop_two malloc_def store_term_def)

lemma build_loop_short:
  "ii < npot \<Longrightarrow> \<not> 2 \<le> length pa \<Longrightarrow>
   build_loop LH ii npot (0 # cs) pa m = (Inl OutOfBounds, snd (malloc m))"
  by (subst build_loop.simps) (simp add: copy_loop_two malloc_def)

lemma build_loop_unknown:
  "ii < npot \<Longrightarrow> c \<noteq> 0 \<Longrightarrow>
   build_loop LH ii npot (c # cs) pa m =
     (case build_loop LH (ii + 1) npot cs pa m of
        (Inl f, m2) \<Rightarrow> (Inl f, m2)
      | (Inr (slots, r), m2) \<Rightarrow> (Inr (Garbage # slots, r), m2))"
  by (subst build_loop.simps) simp

lemma build_loop_append:
  "npot - ii = int k \<Longrightarrow> build_loop LH ii npot pt pa m = (Inr (slots, ct, cur), m') \<Longrightarrow>
   build_loop LH ii npot pt (pa @ extra) m = (Inr (slots, ct, cur @ extra), m')"
proof (induction k arbitrary: ii pt pa m slots)
  case 0
  then show ?case by (simp add: build_loop_done)
next
  case (Suc k)
  from Suc.prems(1) have lt: "ii < npot" and len: "npot - (ii + 1) = int k" by simp_all
  from Suc.prems(2) lt obtain c cs where pt: "pt = c # cs"
    by (cases pt) (auto simp: build_loop_Nil)
  show ?case
  proof (cases "c = 0")
    case True
    have two: "2 \<le> length pa"
    proof (rule ccontr)
      assume "\<not> 2 \<le> length pa"
      with Suc.prems(2) pt True lt show False by (simp add: build_loop_short)
    qed
    then have two': "2 \<le> length (pa @ extra)" by simp
    from Suc.prems(2) pt True obtain slots' where
      run: "build_loop LH (ii + 1) npot cs (drop 2 pa) (store_term pa m) = (Inr (slots', ct, cur), m')"
      and slots: "slots = Term \<lparr>planarRforce = LH, planarphiforce = ZeroPlanarForce, nargs = 2,
                       args = brk m\<rparr> # slots'"
      by (auto simp: build_loop_known [OF lt two] split: prod.splits sum.splits)
    from two have eq: "drop 2 (pa @ extra) = drop 2 pa @ extra"
      and st: "store_term (pa @ extra) m = store_term pa m"
      by (simp_all add: store_term_def)
    have "build_loop LH ii npot pt (pa @ extra) m =
        (case build_loop LH (ii + 1) npot cs (drop 2 pa @ extra) (store_term pa m) of
           (Inl f, m2) \<Rightarrow> (Inl f, m2)
         | (Inr (slots, r), m2) \<Rightarrow>
             (Inr (Term \<lparr>planarRforce = LH, planarphiforce = ZeroPlanarForce, nargs = 2,
                          args = brk m\<rparr> # slots, r), m2))"
      by (simp only: pt True build_loop_known [OF lt two'] eq st)
    with Suc.IH [OF len run] slots show ?thesis by simp
  next
    case False
    from Suc.prems(2) pt False obtain slots' where
      run: "build_loop LH (ii + 1) npot cs pa m = (Inr (slots', ct, cur), m')"
      and slots: "slots = Garbage # slots'"
      by (auto simp: build_loop_unknown [OF lt False] split: prod.splits sum.splits)
    from Suc.IH [OF len run] show ?thesis
      using pt slots by (simp add: build_loop_unknown [OF lt False])
  qed
qed

lemma build_loop_all_known:
  "npot - ii = int k \<Longrightarrow> k \<le> length pt \<Longrightarrow> \<forall>c \<in> set (take k pt). c = 0 \<Longrightarrow>
   2 * k \<le> length pa \<Longrightarrow>
   build_loop LH ii npot pt pa m =
     (Inr (map (halo_term LH) [brk m ..< brk m + k], drop k pt, drop (2 * k) pa),
      after_terms k pa m)"
proof (induction k arbitrary: ii pt pa m)
  case 0
  then show ?case by (simp add: build_loop_done)
next
  case (Suc k)
  from Suc.prems(1) have lt: "ii < npot" and len: "npot - (ii + 1) = int k" by simp_all
  from Suc.prems(2,3) obtain cs where pt: "pt = 0 # cs" and cs: "k \<le> length cs"
    and zero: "\<forall>c \<in> set (take k cs). c = 0"
    by (cases pt) auto
  from Suc.prems(4) have two: "2 \<le> length pa" and rest: "2 * k \<le> length (drop 2 pa)"
    by simp_all
  have brk: "brk (store_term pa m) = Suc (brk m)" by (simp add: store_term_def)
  have upt: "[brk m ..< brk m + Suc k] = brk m # [Suc (brk m) ..< Suc (brk m) + k]"
    by (simp add: upt_conv_Cons)
  show ?case
    unfolding pt build_loop_known [OF lt two] Suc.IH [OF len cs zero rest] brk upt
    by (simp add: halo_term_def add.commute)
qed

lemma after_terms_frame [simp]:
  "brk (after_terms k pa m) = brk m + k"
  "freed (after_terms k pa m) = freed m"
  "engine_calls (after_terms k pa m) = engine_calls m"
  by (induction k arbitrary: pa m) (simp_all add: store_term_def)

lemma live_after_terms: "live (after_terms k pa m) = live m \<union> {brk m ..< brk m + k}"
  by (induction k arbitrary: pa m) (auto simp: store_term_def)

lemma doubles_after_terms:
  "doubles (after_terms k pa m) p =
     (if brk m \<le> p \<and> p < brk m + k then Some (take 2 (drop (2 * (p - brk m)) pa))
      else doubles m p)"
proof (induction k arbitrary: pa m)
  case 0
  then show ?case by auto
next
  case (Suc k)
  have "p \<noteq> brk m \<Longrightarrow> brk m \<le> p \<Longrightarrow> 2 * (p - Suc (brk m)) + 2 = 2 * (p - brk m)"
    by arith
  then show ?case
    by (auto simp: Suc.IH store_term_def add.commute)
qed

lemma take_two_nth:
  "Suc i < length xs \<Longrightarrow> take 2 (drop i xs) = [xs ! i, xs ! Suc i]"
  by (simp add: numeral_2_eq_2 take_Suc_conv_app_nth)

text \<open>
  C5. When the first \<open>npot\<close> type codes are all \<open>0\<close> and \<open>pot_args\<close> holds at least
  \<open>2 * npot\<close> values, the builder returns \<open>npot\<close> terms; the \<open>i\<close>-th term has \<open>nargs = 2\<close> and
  its buffer holds, in order, the two values of \<open>pot_args\<close> at positions \<open>2 * i\<close> and
  \<open>2 * i + 1\<close>, the read position after \<open>i\<close> terms; the read cursor ends \<open>2 * npot\<close> values
  further, so three potentials consume exactly six values.
\<close>

theorem build_loop_known_codes:
  assumes codes: "nat npot \<le> length pot_type" "\<forall>c \<in> set (take (nat npot) pot_type). c = 0"
    and params: "2 * nat npot \<le> length pot_args"
  shows "\<exists>slots m'.
           build_loop LH 0 npot pot_type pot_args m
             = (Inr (slots, drop (nat npot) pot_type, drop (2 * nat npot) pot_args), m')
         \<and> length slots = nat npot
         \<and> (\<forall>i < nat npot. \<exists>b.
               slots ! i = Term b \<and> planarRforce b = LH \<and> planarphiforce b = ZeroPlanarForce
             \<and> nargs b = 2
             \<and> doubles m' (args b) = Some [pot_args ! (2 * i), pot_args ! (2 * i + 1)])"
proof (cases "0 < npot")
  case False
  then show ?thesis by (simp add: build_loop_done)
next
  case True
  then have k: "npot - 0 = int (nat npot)" by simp
  have cell: "take 2 (drop (2 * i) pot_args) = [pot_args ! (2 * i), pot_args ! (2 * i + 1)]"
    if "i < nat npot" for i
  proof -
    from that params have "Suc (2 * i) < length pot_args" by simp
    then show ?thesis by (simp add: take_two_nth)
  qed
  show ?thesis
    unfolding build_loop_all_known [OF k codes params]
    by (simp add: halo_term_def doubles_after_terms cell)
qed

theorem build_loop_known_codes_witness:
  "\<exists>m'. build_loop example_Rforce 0 3 [0, 0, 0] [1, 2, 3, 4, 5, 6] empty_machine =
    (Inr ([Term \<lparr>planarRforce = example_Rforce, planarphiforce = ZeroPlanarForce, nargs = 2, args = 0\<rparr>,
           Term \<lparr>planarRforce = example_Rforce, planarphiforce = ZeroPlanarForce, nargs = 2, args = 1\<rparr>,
           Term \<lparr>planarRforce = example_Rforce, planarphiforce = ZeroPlanarForce, nargs = 2, args = 2\<rparr>],
          [], []), m')
     \<and> doubles m' 0 = Some [1, 2] \<and> doubles m' 1 = Some [3, 4] \<and> doubles m' 2 = Some [5, 6]"
proof -
  have codes: "nat 3 \<le> length [0, 0, 0 :: int]" "\<forall>c \<in> set (take (nat 3) [0, 0, 0 :: int]). c = 0"
    by simp_all
  have params: "2 * nat 3 \<le> length [1, 2, 3, 4, 5, 6 :: real]" by simp
  have run: "build_loop example_Rforce 0 3 [0, 0, 0] [1, 2, 3, 4, 5, 6] empty_machine =
    (Inr ([Term \<lparr>planarRforce = example_Rforce, planarphiforce = ZeroPlanarForce, nargs = 2, args = 0\<rparr>,
           Term \<lparr>planarRforce = example_Rforce, planarphiforce = ZeroPlanarForce, nargs = 2, args = 1\<rparr>,
           Term \<lparr>planarRforce = example_Rforce, planarphiforce = ZeroPlanarForce, nargs = 2, args = 2\<rparr>],
          [], []),
     \<lparr>live = {0, 1, 2}, doubles = [0 \<mapsto> [1, 2], 1 \<mapsto> [3, 4], 2 \<mapsto> [5, 6]], brk = 3,
       freed = [], engine_calls = 0\<rparr>)"
    by (auto simp: run_simps)
  from build_loop_known_codes [OF codes params, of example_Rforce empty_machine] run
  show ?thesis by simp
qed

subsection \<open>Surplus parameters\<close>

text \<open>
  C3, as claimed, fails: the builder is not given the length of \<open>pot_args\<close> and has no
  check of it. With seven values for three potentials of type \<open>0\<close> it returns the three
  terms built from the first six values and leaves the seventh unread.
\<close>

theorem build_loop_surplus_params_counterexample:
  "build_loop example_Rforce 0 3 [0, 0, 0] [1, 2, 3, 4, 5, 6, 7] empty_machine =
    (Inr ([Term \<lparr>planarRforce = example_Rforce, planarphiforce = ZeroPlanarForce, nargs = 2, args = 0\<rparr>,
           Term \<lparr>planarRforce = example_Rforce, planarphiforce = ZeroPlanarForce, nargs = 2, args = 1\<rparr>,
           Term \<lparr>planarRforce = example_Rforce, planarphiforce = ZeroPlanarForce, nargs = 2, args = 2\<rparr>],
          [], [7]),
     \<lparr>live = {0, 1, 2}, doubles = [0 \<mapsto> [1, 2], 1 \<mapsto> [3, 4], 2 \<mapsto> [5, 6]], brk = 3,
       freed = [], engine_calls = 0\<rparr>)"
  by (auto simp: run_simps)

text \<open>
  C3, amended. When the first \<open>npot\<close> type codes are all \<open>0\<close> and \<open>pot_args\<close> holds at least
  \<open>2 * npot\<close> values, the builder returns without error the same terms and the same memory
  as for the first \<open>2 * npot\<close> values alone; the surplus is left unread.
\<close>

theorem build_loop_surplus_params:
  assumes codes: "nat npot \<le> length pot_type" "\<forall>c \<in> set (take (nat npot) pot_type). c = 0"
    and params: "2 * nat npot \<le> length pot_args"
  shows "\<exists>slots m'.
           build_loop LH 0 npot pot_type pot_args m
             = (Inr (slots, drop (nat npot) pot_type, drop (2 * nat npot) pot_args), m')
         \<and> build_loop LH 0 npot pot_type (take (2 * nat npot) pot_args) m
             = (Inr (slots, drop (nat npot) pot_type, []), m')
         \<and> length slots = nat npot"
proof (cases "0 < npot")
  case False
  then show ?thesis by (simp add: build_loop_done)
next
  case True
  then have k: "npot - 0 = int (nat npot)" by simp
  from params have exact: "2 * nat npot \<le> length (take (2 * nat npot) pot_args)" by simp
  have first: "build_loop LH 0 npot pot_type (take (2 * nat npot) pot_args) m
      = (Inr (map (halo_term LH) [brk m ..< brk m + nat npot], drop (nat npot) pot_type, []),
         after_terms (nat npot) (take (2 * nat npot) pot_args) m)"
    using build_loop_all_known [OF k codes exact, of LH m] by simp
  from build_loop_append [OF k first, of "drop (2 * nat npot) pot_args"] first
  show ?thesis by simp
qed

theorem build_loop_surplus_params_witness:
  "build_loop example_Rforce 0 1 [0] [1, 2, 3] empty_machine
     = (Inr ([Term \<lparr>planarRforce = example_Rforce, planarphiforce = ZeroPlanarForce,
                     nargs = 2, args = 0\<rparr>], [], [3]),
        \<lparr>live = {0}, doubles = [0 \<mapsto> [1, 2]], brk = 1, freed = [], engine_calls = 0\<rparr>)
   \<and> build_loop example_Rforce 0 1 [0] [1, 2] empty_machine
     = (Inr ([Term \<lparr>planarRforce = example_Rforce, planarphiforce = ZeroPlanarForce,
                     nargs = 2, args = 0\<rparr>], [], []),
        \<lparr>live = {0}, doubles = [0 \<mapsto> [1, 2]], brk = 1, freed = [], engine_calls = 0\<rparr>)"
proof -
  have codes: "nat 1 \<le> length [0 :: int]" "\<forall>c \<in> set (take (nat 1) [0 :: int]). c = 0"
    by simp_all
  have params: "2 * nat 1 \<le> length [1, 2, 3 :: real]" by simp
  have run: "build_loop example_Rforce 0 1 [0] [1, 2] empty_machine
     = (Inr ([Term \<lparr>planarRforce = example_Rforce, planarphiforce = ZeroPlanarForce,
                     nargs = 2, args = 0\<rparr>], [], []),
        \<lparr>live = {0}, doubles = [0 \<mapsto> [1, 2]], brk = 1, freed = [], engine_calls = 0\<rparr>)"
    by (auto simp: run_simps)
  from build_loop_surplus_params [OF codes params, of example_Rforce empty_machine] run
  show ?thesis by (auto simp: eval_nat_numeral)
qed

subsection \<open>Release of the terms\<close>

lemma free_loop_halo:
  "n - ii = int (length ps) \<Longrightarrow> distinct ps \<Longrightarrow> set ps \<subseteq> live m \<Longrightarrow>
   free_loop ii n (map (halo_term LH) ps) m =
     (Inr (), m\<lparr>live := live m - set ps,
                doubles := (\<lambda>p. if p \<in> set ps then None else doubles m p),
                freed := freed m @ ps\<rparr>)"
proof (induction ps arbitrary: ii m)
  case Nil
  then show ?case by (subst free_loop.simps) simp
next
  case (Cons p ps)
  from Cons.prems(1) have lt: "ii < n" and len: "n - (ii + 1) = int (length ps)" by simp_all
  define m1 where "m1 = m\<lparr>live := live m - {p}, doubles := (doubles m)(p := None),
                       freed := freed m @ [p]\<rparr>"
  from Cons.prems(3) have fr: "free p m = (Inr (), m1)" by (simp add: free_def m1_def)
  from Cons.prems(2,3) have dist: "distinct ps" and sub: "set ps \<subseteq> live m1"
    by (auto simp: m1_def)
  have "free_loop ii n (map (halo_term LH) (p # ps)) m = free_loop (ii + 1) n (map (halo_term LH) ps) m1"
    using lt fr by (subst free_loop.simps) (simp add: halo_term_def)
  also note Cons.IH [OF len dist sub]
  also have "m1\<lparr>live := live m1 - set ps,
                doubles := (\<lambda>q. if q \<in> set ps then None else doubles m1 q),
                freed := freed m1 @ ps\<rparr> =
      m\<lparr>live := live m - set (p # ps),
                doubles := (\<lambda>q. if q \<in> set (p # ps) then None else doubles m q),
                freed := freed m @ p # ps\<rparr>"
    by (intro machine.equality) (auto simp: m1_def)
  finally show ?case .
qed

lemma integratePlanarOrbit_releases_once:
  assumes npot: "0 \<le> npot"
    and codes: "nat npot \<le> length pot_type" "\<forall>c \<in> set (take (nat npot) pot_type). c = 0"
    and params: "2 * nat npot \<le> length pot_args"
    and fresh: "\<forall>p \<in> live m. p < brk m" "\<forall>p. brk m \<le> p \<longrightarrow> doubles m p = None"
    and engine: "leapfrog evalPlanarRectForce 2 yo nt t npot
                   (map (halo_term LH) [brk m + 1 ..< brk m + 1 + nat npot])
                   (doubles (after_terms (nat npot) pot_args (snd (malloc m))))
                   rtol atol result = Inr result'"
  shows "integratePlanarOrbit LH leapfrog yo nt t npot pot_type pot_args rtol atol result m =
           (Inr result',
            m\<lparr>brk := brk m + 1 + nat npot,
              freed := freed m @ [brk m + 1 ..< brk m + 1 + nat npot] @ [brk m],
              engine_calls := engine_calls m + 1\<rparr>)"
proof -
  define k where "k = nat npot"
  define m1 where "m1 = snd (malloc m)"
  define m2 where "m2 = after_terms k pot_args m1"
  define m3 where "m3 = m2\<lparr>engine_calls := engine_calls m2 + 1\<rparr>"
  define ps where "ps = [brk m + 1 ..< brk m + 1 + k]"
  have m1: "malloc m = (brk m, m1)" "brk m1 = brk m + 1" "live m1 = insert (brk m) (live m)"
    "doubles m1 = doubles m"
    by (simp_all add: m1_def malloc_def)
  have build: "build_loop LH 0 npot pot_type pot_args m1
      = (Inr (map (halo_term LH) ps, drop k pot_type, drop (2 * k) pot_args), m2)"
  proof (cases "0 < npot")
    case False
    then show ?thesis by (simp add: build_loop_done k_def m2_def ps_def)
  next
    case True
    then have "npot - 0 = int k" by (simp add: k_def)
    from build_loop_all_known [OF this codes [folded k_def] params [folded k_def], of LH m1]
    show ?thesis by (simp add: m2_def ps_def m1(2))
  qed
  have live3: "live m3 = insert (brk m) (live m) \<union> set ps"
    by (auto simp: m3_def m2_def live_after_terms m1 ps_def)
  have n: "npot - 0 = int (length ps)" if "0 < npot" using that by (simp add: ps_def k_def)
  define m4 where "m4 = m3\<lparr>live := live m3 - set ps,
                 doubles := (\<lambda>p. if p \<in> set ps then None else doubles m3 p),
                 freed := freed m3 @ ps\<rparr>"
  have fl: "free_loop 0 npot (map (halo_term LH) ps) m3 = (Inr (), m4)"
  proof (cases "0 < npot")
    case True
    show ?thesis
      unfolding m4_def
      by (rule free_loop_halo [OF n [OF True]]) (auto simp: ps_def live3)
  next
    case False
    then have "ps = []" by (simp add: ps_def k_def)
    with False show ?thesis by (subst free_loop.simps) (simp add: m4_def)
  qed
  have base: "brk m \<in> live m4" by (auto simp: m4_def live3 ps_def)
  have fr: "free (brk m) m4 = (Inr (), m4\<lparr>live := live m4 - {brk m},
              doubles := (doubles m4)(brk m := None), freed := freed m4 @ [brk m]\<rparr>)"
    using base by (simp add: free_def)
  have eng: "leapfrog evalPlanarRectForce 2 yo nt t npot (map (halo_term LH) ps) (doubles m3)
                   rtol atol result = Inr result'"
    using engine by (simp add: ps_def k_def m3_def m2_def m1_def)
  have drv: "integratePlanarOrbit LH leapfrog yo nt t npot pot_type pot_args rtol atol result m =
      (Inr result', m4\<lparr>live := live m4 - {brk m},
              doubles := (doubles m4)(brk m := None), freed := freed m4 @ [brk m]\<rparr>)"
    using npot m1(1) build eng [unfolded m3_def] fl [unfolded m3_def] fr
    by (simp add: integratePlanarOrbit_def Let_def)
  have live_eq: "live m4 - {brk m} = live m"
    using fresh(1) by (auto simp: m4_def live3 ps_def)
  have dbl_eq: "(doubles m4)(brk m := None) = doubles m"
    using fresh(2)
    by (auto simp: fun_eq_iff m4_def m3_def m2_def doubles_after_terms m1 ps_def)
  have rest: "brk m4 = brk m + 1 + k" "freed m4 = freed m @ ps"
    "engine_calls m4 = engine_calls m + 1"
    by (simp_all add: m4_def m3_def m2_def m1 m1_def malloc_def)
  show ?thesis
    unfolding drv
    using live_eq dbl_eq rest by (simp add: ps_def k_def)
qed

text \<open>
  C6. The claim is that every call releases each parameter buffer and the array exactly
  once. For the type codes \<open>[0, 99]\<close> the cell of the second code is never assigned; after
  the engine has returned, the loop frees the buffer of the first term and then passes the
  unassigned \<open>args\<close> of the second cell to \<^verbatim>\<open>free\<close>. The run leaves the behaviour defined
  by C there, with the array (address \<open>0\<close>) not released.
\<close>

theorem integratePlanarOrbit_release_unknown_code:
  "integratePlanarOrbit example_Rforce idle_leapfrog [1, 0, 0, 1] 2 [0, 1] 2 [0, 99] [1, 2] 0 0 []
     empty_machine
   = (Inl Indeterminate,
      \<lparr>live = {0}, doubles = Map.empty, brk = 2, freed = [1], engine_calls = 1\<rparr>)"
  by (auto simp: run_simps idle_leapfrog_def)

subsection \<open>Type codes without a case\<close>

text \<open>
  C1. The claim is that a type code without a case makes the driver raise an error before
  the engine is invoked, with the terms built so far released. For the single type code
  \<open>99\<close> the builder returns normally with an unassigned cell, and the driver goes on: with an
  engine that does not call the force callback, the engine is invoked once and the run
  leaves the behaviour defined by C when the unassigned \<open>args\<close> is passed to \<^verbatim>\<open>free\<close>;
  with an engine that calls the callback, it leaves it inside the engine, at the call
  through the unassigned provider. In both runs nothing is released.
\<close>

theorem integratePlanarOrbit_unknown_code:
  "build_loop example_Rforce 0 1 [99] [] (snd (malloc empty_machine))
     = (Inr ([Garbage], [], []),
        \<lparr>live = {0}, doubles = Map.empty, brk = 1, freed = [], engine_calls = 0\<rparr>)
   \<and> integratePlanarOrbit example_Rforce idle_leapfrog [1, 0, 0, 1] 2 [0, 1] 1 [99] [] 0 0 []
       empty_machine
     = (Inl Indeterminate,
        \<lparr>live = {0}, doubles = Map.empty, brk = 1, freed = [], engine_calls = 1\<rparr>)
   \<and> integratePlanarOrbit example_Rforce probe_leapfrog [1, 0, 0, 1] 2 [0, 1] 1 [99] [] 0 0 []
       empty_machine
     = (Inl Indeterminate,
        \<lparr>live = {0}, doubles = Map.empty, brk = 1, freed = [], engine_calls = 1\<rparr>)"
  by (auto simp: run_simps idle_leapfrog_def probe_leapfrog_def evalPlanarRectForce_def polar_eq
      calcPlanarRforce_def calcPlanarRforce_loop.simps)

end
